theory Spec2Isabelle
  imports Main
begin

section \<open>Data model\<close>

text \<open>
  The two Mongoose schemas of \<^verbatim>\<open>models/Registration.js\<close> (the ledger
  \<^verbatim>\<open>Registration\<close> and the \<^verbatim>\<open>Event\<close> with its embedded
  \<^verbatim>\<open>participants\<close> roster) and the handlers of the events and registrations
  routers. Object ids are natural numbers, dates are milliseconds since the epoch, the
  Number fields are integers, the text of a note is the list of its UTF-16 code units. A
  collection is the list of its documents;
  \<^verbatim>\<open>findById\<close> and \<^verbatim>\<open>findOne\<close> return the first match and
  \<^verbatim>\<open>save\<close> replaces the stored document with the same \<^verbatim>\<open>_id\<close>.
  Every request is handled to completion before the next one starts, and
  \<^verbatim>\<open>new Date()\<close> is one value \<open>now\<close> per request.
  The User collection (the \<^verbatim>\<open>participatedEvents\<close> list the events router
  pushes to and pulls from) is not part of the model, nor are the fields of an event that
  no handler below reads or writes; those fields are taken to hold valid values.
\<close>

type_synonym object_id = nat
type_synonym date = int
type_synonym jsstring = "nat list"

datatype category =
  Technical | Cultural | Sports | Academic | Workshop | Seminar | Competition | Other

datatype event_status = Past | Upcoming | Live

datatype participant_status = Registered | Attended | Completed | Cancelled

datatype registration_status = pending | confirmed | rejected | cancelled

datatype registration_type = participant | coordinator

datatype role = Admin | Faculty | Participant

record user =
  user_id :: object_id
  role :: role

record roster_entry =
  userId :: object_id
  registrationDate :: date
  p_status :: participant_status
  attendanceMarked :: bool
  attendanceDate :: "date option"

record event =
  event_id :: object_id
  category :: category
  tags :: "string list"
  startDate :: date
  endDate :: date
  maxParticipants :: int
  currentParticipants :: int
  registrationDeadline :: "date option"
  status :: event_status
  isActive :: bool
  createdBy :: object_id
  organizers :: "object_id list"
  moderators :: "object_id list"
  participants :: "roster_entry list"
  views :: int
  registrations :: int
  attendance :: int

record registration =
  reg_id :: object_id
  r_event :: object_id
  r_participant :: object_id
  registrationType :: registration_type
  r_status :: registration_status
  r_isActive :: bool
  coordinatorNotes :: "jsstring option"

record db =
  db_events :: "event list"
  db_registrations :: "registration list"

text \<open>
  The schema requires \<^verbatim>\<open>registrationDeadline\<close>; the field is optional here
  because \<^verbatim>\<open>isRegistrationOpen\<close> and the registrations router provide for a
  document without it. \<^verbatim>\<open>save()\<close> refuses such a document.
\<close>

text \<open>The JSON messages of the error responses, with their HTTP status.\<close>

datatype error =
    Event_ID_required                   \<comment> \<open>400\<close>
  | Event_not_found                     \<comment> \<open>404\<close>
  | Cannot_register_for_this_event      \<comment> \<open>400\<close>
  | Not_registered_for_this_event       \<comment> \<open>400\<close>
  | Event_not_found_or_inactive         \<comment> \<open>404\<close>
  | Event_is_full                       \<comment> \<open>400\<close>
  | Registration_deadline_has_passed    \<comment> \<open>400\<close>
  | Already_registered_for_this_event   \<comment> \<open>400\<close>
  | Registration_not_found              \<comment> \<open>404\<close>
  | Not_authorized                      \<comment> \<open>403\<close>
  | Event_already_started               \<comment> \<open>400\<close>
  | Faculty_or_admin_access_required    \<comment> \<open>403\<close>
  | Resource_ID_required                \<comment> \<open>400\<close>
  | Resource_not_found                  \<comment> \<open>404\<close>
  | Access_denied                       \<comment> \<open>403\<close>
  | User_ID_required                    \<comment> \<open>400\<close>
  | Server_error                        \<comment> \<open>500, the handler's catch block\<close>

section \<open>The store\<close>

fun update_first :: "('a \<Rightarrow> bool) \<Rightarrow> ('a \<Rightarrow> 'a) \<Rightarrow> 'a list \<Rightarrow> 'a list" where
  "update_first P f [] = []"
| "update_first P f (x # xs) = (if P x then f x # xs else x # update_first P f xs)"

definition findEventById :: "db \<Rightarrow> object_id \<Rightarrow> event option" where
  "findEventById d i = find (\<lambda>e. event_id e = i) (db_events d)"

definition validEvent :: "event \<Rightarrow> bool" where
  \<comment> \<open>the validation \<^verbatim>\<open>save()\<close> runs on an event: of the paths modelled, only the
      required \<^verbatim>\<open>registrationDeadline\<close> can be missing\<close>
  "validEvent e \<longleftrightarrow> registrationDeadline e \<noteq> None"

definition storeEvent :: "db \<Rightarrow> event \<Rightarrow> db" where
  \<comment> \<open>the write of a validated event: it replaces the stored document of the same id\<close>
  "storeEvent d e =
     d\<lparr>db_events := update_first (\<lambda>x. event_id x = event_id e) (\<lambda>_. e) (db_events d)\<rparr>"

definition saveEvent :: "db \<Rightarrow> event \<Rightarrow> db option" where
  \<comment> \<open>\<^verbatim>\<open>event.save()\<close>; \<open>None\<close> is the ValidationError it throws, with nothing
      written\<close>
  "saveEvent d e = (if validEvent e then Some (storeEvent d e) else None)"

definition findRegistrationById :: "db \<Rightarrow> object_id \<Rightarrow> registration option" where
  "findRegistrationById d i = find (\<lambda>r. reg_id r = i) (db_registrations d)"

definition findRegistration :: "db \<Rightarrow> object_id \<Rightarrow> object_id \<Rightarrow> registration option" where
  \<comment> \<open>\<^verbatim>\<open>Registration.findOne({ event, participant })\<close>\<close>
  "findRegistration d ev u =
     find (\<lambda>r. r_event r = ev \<and> r_participant r = u) (db_registrations d)"

definition saveRegistration :: "db \<Rightarrow> registration \<Rightarrow> db" where
  "saveRegistration d r =
     d\<lparr>db_registrations :=
         update_first (\<lambda>x. reg_id x = reg_id r) (\<lambda>_. r) (db_registrations d)\<rparr>"

definition fresh_reg_id :: "registration list \<Rightarrow> object_id" where
  \<comment> \<open>the \<^verbatim>\<open>_id\<close> of a new document: one no stored document has\<close>
  "fresh_reg_id rs = Suc (fold max (map reg_id rs) 0)"

definition insertRegistration :: "db \<Rightarrow> registration \<Rightarrow> error + db" where
  \<comment> \<open>\<^verbatim>\<open>save()\<close> of a new Registration: the pre-save hook throws when a document
      for the same event and participant exists\<close>
  "insertRegistration d r =
     (case findRegistration d (r_event r) (r_participant r) of
        Some _ \<Rightarrow> Inl Server_error
      | None \<Rightarrow> Inr (d\<lparr>db_registrations := db_registrations d @ [r]\<rparr>))"

section \<open>Event model: virtuals and methods\<close>

definition isRegistrationOpen :: "date \<Rightarrow> event \<Rightarrow> bool" where
  "isRegistrationOpen now e =
     (case registrationDeadline e of
        None \<Rightarrow> False
      | Some deadline \<Rightarrow> now < deadline \<and> status e = Live)"

definition eventStatus :: "date \<Rightarrow> event \<Rightarrow> event_status option" where
  \<comment> \<open>the virtual \<^verbatim>\<open>eventStatus\<close>; \<open>None\<close> is the string 'unknown'\<close>
  "eventStatus now e =
     (if status e = Past then Some Past
      else if status e = Upcoming then Some Upcoming
      else if status e = Live then Some Live
      else if now < startDate e then Some Live
      else if now \<ge> startDate e \<and> now \<le> endDate e then Some Upcoming
      else if now > endDate e then Some Past
      else None)"

definition isFull :: "event \<Rightarrow> bool" where
  \<comment> \<open>the capacity test both registration paths write out\<close>
  "isFull e = (maxParticipants e > 0 \<and> currentParticipants e \<ge> maxParticipants e)"

definition canUserRegister :: "date \<Rightarrow> event \<Rightarrow> object_id \<Rightarrow> bool" where
  "canUserRegister now e u =
     (case find (\<lambda>p. userId p = u) (participants e) of
        Some _ \<Rightarrow> False
      | None \<Rightarrow>
          if \<not> isRegistrationOpen now e then False
          else if isFull e then False
          else True)"

definition registerUser :: "date \<Rightarrow> event \<Rightarrow> object_id \<Rightarrow> error + event" where
  \<comment> \<open>\<open>Inl\<close> is the thrown Error; the event returned is the one saved\<close>
  "registerUser now e u =
     (if \<not> canUserRegister now e u then Inl Cannot_register_for_this_event
      else Inr (e\<lparr>participants := participants e @
                     [\<lparr>userId = u, registrationDate = now, p_status = Registered,
                       attendanceMarked = False, attendanceDate = None\<rparr>],
                  currentParticipants := currentParticipants e + 1,
                  registrations := registrations e + 1\<rparr>))"

definition markAttendance :: "date \<Rightarrow> event \<Rightarrow> object_id \<Rightarrow> error + event" where
  "markAttendance now e u =
     (case find (\<lambda>p. userId p = u) (participants e) of
        None \<Rightarrow> Inl Not_registered_for_this_event
      | Some _ \<Rightarrow>
          Inr (e\<lparr>participants :=
                    update_first (\<lambda>p. userId p = u)
                      (\<lambda>p. p\<lparr>attendanceMarked := True, attendanceDate := Some now,
                              p_status := Attended\<rparr>)
                      (participants e),
                 attendance := attendance e + 1\<rparr>))"

section \<open>Middleware\<close>

text \<open>
  \<open>params\<close> is \<^verbatim>\<open>req.params\<close>, the route parameters by name.
  \<^verbatim>\<open>canParticipateInEvent\<close> and \<^verbatim>\<open>isRegisteredForEvent\<close> read the
  parameter named \<^verbatim>\<open>eventId\<close>; \<^verbatim>\<open>requireOwnershipOrAdmin(Event, 'id')\<close>
  and the handlers read the one named \<^verbatim>\<open>id\<close>. The user is the one the
  \<^verbatim>\<open>auth\<close> middleware has put into the request.
\<close>

type_synonym params = "(string \<times> object_id) list"

definition canParticipateInEvent :: "db \<Rightarrow> date \<Rightarrow> user \<Rightarrow> params \<Rightarrow> error + event" where
  "canParticipateInEvent d now u ps =
     (case map_of ps ''eventId'' of
        None \<Rightarrow> Inl Event_ID_required
      | Some eventId \<Rightarrow>
          (case findEventById d eventId of
             None \<Rightarrow> Inl Event_not_found
           | Some e \<Rightarrow>
               if \<not> canUserRegister now e (user_id u)
               then Inl Cannot_register_for_this_event
               else Inr e))"

definition isRegisteredForEvent :: "db \<Rightarrow> user \<Rightarrow> params \<Rightarrow> error + event \<times> roster_entry" where
  "isRegisteredForEvent d u ps =
     (case map_of ps ''eventId'' of
        None \<Rightarrow> Inl Event_ID_required
      | Some eventId \<Rightarrow>
          (case findEventById d eventId of
             None \<Rightarrow> Inl Event_not_found
           | Some e \<Rightarrow>
               (case find (\<lambda>p. userId p = user_id u) (participants e) of
                  None \<Rightarrow> Inl Not_registered_for_this_event
                | Some p \<Rightarrow> Inr (e, p))))"

definition requireFaculty :: "user \<Rightarrow> error + unit" where
  "requireFaculty u =
     (if role u \<noteq> Admin \<and> role u \<noteq> Faculty then Inl Faculty_or_admin_access_required
      else Inr ())"

definition requireOwnershipOrAdmin :: "db \<Rightarrow> user \<Rightarrow> params \<Rightarrow> error + unit" where
  "requireOwnershipOrAdmin d u ps =
     (if role u = Admin then Inr ()
      else case map_of ps ''id'' of
        None \<Rightarrow> Inl Resource_ID_required
      | Some resourceId \<Rightarrow>
          (case findEventById d resourceId of
             None \<Rightarrow> Inl Resource_not_found
           | Some resource \<Rightarrow>
               if createdBy resource = user_id u then Inr ()
               else if user_id u \<in> set (organizers resource) then Inr ()
               else if user_id u \<in> set (moderators resource) then Inr ()
               else Inl Access_denied))"

section \<open>Events router\<close>

text \<open>
  The outcome of a request that writes: \<open>Inr\<close> is the store after a successful response,
  \<open>Inl\<close> the error response together with the store as the failed request leaves it.
\<close>

type_synonym outcome = "error \<times> db + db"

definition response :: "outcome \<Rightarrow> error option" where
  "response r = (case r of Inl (err, _) \<Rightarrow> Some err | Inr _ \<Rightarrow> None)"

definition findEventByParam :: "db \<Rightarrow> params \<Rightarrow> event option" where
  \<comment> \<open>\<^verbatim>\<open>Event.findById(req.params.id)\<close>; an undefined id finds nothing\<close>
  "findEventByParam d ps =
     (case map_of ps ''id'' of None \<Rightarrow> None | Some i \<Rightarrow> findEventById d i)"

definition computedStatus :: "date \<Rightarrow> event \<Rightarrow> event_status" where
  \<comment> \<open>\<^verbatim>\<open>newStatus\<close> in the callback of the listing\<close>
  "computedStatus now e =
     (if endDate e < now then Past
      else if startDate e > now then Upcoming
      else if startDate e \<le> now \<and> endDate e \<ge> now then Live
      else status e)"

definition get_events ::
  "db \<Rightarrow> date \<Rightarrow> (event \<Rightarrow> bool) \<Rightarrow> (event list \<Rightarrow> event list)
     \<Rightarrow> db \<times> (event \<times> event_status) list" where
  \<comment> \<open>GET /api/events: \<open>filters\<close> is the category, status and search part of the query,
      \<open>page\<close> the sort, skip and limit the database applies; a save that fails is not
      waited for and writes nothing\<close>
  "get_events d now filters page =
     (let found = page (filter (\<lambda>e. isActive e \<and> filters e) (db_events d))
      in (foldl (\<lambda>d' e. if status e \<noteq> computedStatus now e
                          then (case saveEvent d' (e\<lparr>status := computedStatus now e\<rparr>) of
                                  None \<Rightarrow> d' | Some d'' \<Rightarrow> d'')
                          else d') d found,
          map (\<lambda>e. (e\<lparr>status := computedStatus now e\<rparr>, computedStatus now e)) found))"

definition get_event :: "db \<Rightarrow> params \<Rightarrow> error + db \<times> event" where
  \<comment> \<open>GET /api/events/:id\<close>
  "get_event d ps =
     (case findEventByParam d ps of
        None \<Rightarrow> Inl Event_not_found
      | Some e \<Rightarrow>
          if \<not> isActive e then Inl Event_not_found
          else (case saveEvent d (e\<lparr>views := views e + 1\<rparr>) of
                  None \<Rightarrow> Inl Server_error
                | Some d' \<Rightarrow> Inr (d', e\<lparr>views := views e + 1\<rparr>)))"

definition post_register :: "db \<Rightarrow> date \<Rightarrow> user \<Rightarrow> params \<Rightarrow> outcome" where
  \<comment> \<open>POST /api/events/:id/register, behind \<^verbatim>\<open>canParticipateInEvent\<close>\<close>
  "post_register d now u ps =
     (case canParticipateInEvent d now u ps of
        Inl err \<Rightarrow> Inl (err, d)
      | Inr e \<Rightarrow>
          (case registerUser now e (user_id u) of
             Inl _ \<Rightarrow> Inl (Server_error, d)
           | Inr e' \<Rightarrow>
               (case saveEvent d e' of
                  None \<Rightarrow> Inl (Server_error, d)
                | Some d' \<Rightarrow> Inr d')))"

definition post_unregister :: "db \<Rightarrow> user \<Rightarrow> params \<Rightarrow> outcome" where
  \<comment> \<open>POST /api/events/:id/unregister, behind \<^verbatim>\<open>isRegisteredForEvent\<close>\<close>
  "post_unregister d u ps =
     (case isRegisteredForEvent d u ps of
        Inl err \<Rightarrow> Inl (err, d)
      | Inr (e, _) \<Rightarrow>
          (case saveEvent d
                  (e\<lparr>participants := filter (\<lambda>p. userId p \<noteq> user_id u) (participants e),
                     currentParticipants := currentParticipants e - 1,
                     registrations := registrations e - 1\<rparr>) of
             None \<Rightarrow> Inl (Server_error, d)
           | Some d' \<Rightarrow> Inr d'))"

definition post_attendance ::
  "db \<Rightarrow> date \<Rightarrow> user \<Rightarrow> params \<Rightarrow> object_id option \<Rightarrow> outcome" where
  \<comment> \<open>POST /api/events/:id/attendance; the last argument is \<^verbatim>\<open>req.body.userId\<close>\<close>
  "post_attendance d now u ps body_userId =
     (case requireOwnershipOrAdmin d u ps of
        Inl err \<Rightarrow> Inl (err, d)
      | Inr _ \<Rightarrow>
          (case body_userId of
             None \<Rightarrow> Inl (User_ID_required, d)
           | Some uid \<Rightarrow>
               (case findEventByParam d ps of
                  None \<Rightarrow> Inl (Event_not_found, d)
                | Some e \<Rightarrow>
                    (case markAttendance now e uid of
                       Inl _ \<Rightarrow> Inl (Server_error, d)
                     | Inr e' \<Rightarrow>
                         (case saveEvent d e' of
                            None \<Rightarrow> Inl (Server_error, d)
                          | Some d' \<Rightarrow> Inr d')))))"

definition get_participants :: "db \<Rightarrow> user \<Rightarrow> params \<Rightarrow> error + roster_entry list" where
  \<comment> \<open>GET /api/events/:id/participants\<close>
  "get_participants d u ps =
     (case requireOwnershipOrAdmin d u ps of
        Inl err \<Rightarrow> Inl err
      | Inr _ \<Rightarrow>
          (case findEventByParam d ps of
             None \<Rightarrow> Inl Event_not_found
           | Some e \<Rightarrow> Inr (participants e)))"

definition get_related :: "db \<Rightarrow> params \<Rightarrow> error + event list" where
  \<comment> \<open>GET /api/events/:id/related\<close>
  "get_related d ps =
     (case findEventByParam d ps of
        None \<Rightarrow> Inl Event_not_found
      | Some e \<Rightarrow>
          Inr (take 4 (sort_key startDate
                 (filter (\<lambda>x. Some (event_id x) \<noteq> map_of ps ''id'' \<and> isActive x \<and>
                               (category x = category e \<or>
                                (\<exists>t \<in> set (tags x). t \<in> set (tags e))))
                    (db_events d)))))"

section \<open>Registrations router\<close>

definition deadlinePassed :: "date \<Rightarrow> event \<Rightarrow> bool" where
  \<comment> \<open>\<^verbatim>\<open>new Date() > event.registrationDeadline\<close>, false against undefined\<close>
  "deadlinePassed now e =
     (case registrationDeadline e of None \<Rightarrow> False | Some deadline \<Rightarrow> now > deadline)"

definition post_registration ::
  "db \<Rightarrow> date \<Rightarrow> user \<Rightarrow> object_id \<Rightarrow> registration_type \<Rightarrow> outcome" where
  \<comment> \<open>POST /api/registrations; the registration is saved before the event is\<close>
  "post_registration d now u eventId registrationType' =
     (case findEventById d eventId of
        None \<Rightarrow> Inl (Event_not_found_or_inactive, d)
      | Some e \<Rightarrow>
          if \<not> isActive e then Inl (Event_not_found_or_inactive, d)
          else if isFull e then Inl (Event_is_full, d)
          else if deadlinePassed now e then Inl (Registration_deadline_has_passed, d)
          else
            (case findRegistration d eventId (user_id u) of
               Some _ \<Rightarrow> Inl (Already_registered_for_this_event, d)
             | None \<Rightarrow>
                 (case insertRegistration d
                         \<lparr>reg_id = fresh_reg_id (db_registrations d), r_event = eventId,
                          r_participant = user_id u, registrationType = registrationType',
                          r_status = pending, r_isActive = True, coordinatorNotes = None\<rparr> of
                    Inl _ \<Rightarrow> Inl (Server_error, d)
                  | Inr d' \<Rightarrow>
                      (case saveEvent d'
                              (e\<lparr>currentParticipants := currentParticipants e + 1\<rparr>) of
                         None \<Rightarrow> Inl (Server_error, d')
                       | Some d'' \<Rightarrow> Inr d''))))"

definition isWhiteSpace :: "nat \<Rightarrow> bool" where
  \<comment> \<open>the code units that \<^verbatim>\<open>\s\<close> and \<^verbatim>\<open>String.prototype.trim\<close> take
      for white space\<close>
  "isWhiteSpace c \<longleftrightarrow>
     c \<in> {9, 10, 11, 12, 13, 32, 160, 5760, 8232, 8233, 8239, 8287, 12288, 65279} \<or>
     (8192 \<le> c \<and> c \<le> 8202)"

definition trim :: "jsstring \<Rightarrow> jsstring" where
  "trim s = rev (dropWhile isWhiteSpace (rev (dropWhile isWhiteSpace s)))"

definition setNotes :: "jsstring option \<Rightarrow> registration \<Rightarrow> registration" where
  \<comment> \<open>\<^verbatim>\<open>if (notes) registration.coordinatorNotes = notes\<close>: absent and empty notes
      are falsy\<close>
  "setNotes notes r =
     (case notes of Some (c # cs) \<Rightarrow> r\<lparr>coordinatorNotes := notes\<rparr> | _ \<Rightarrow> r)"

definition put_registration_status ::
  "db \<Rightarrow> user \<Rightarrow> object_id \<Rightarrow> registration_status \<Rightarrow> jsstring option \<Rightarrow> outcome" where
  \<comment> \<open>PUT /api/registrations/:id/status. The validator chain trims the notes, and empty
      notes are not stored. A missing event makes the populated
      \<^verbatim>\<open>registration.event\<close> null and the ownership test throw. The registration is
      saved before the event is.\<close>
  "put_registration_status d u rid status' body_notes =
     (case requireFaculty u of
        Inl err \<Rightarrow> Inl (err, d)
      | Inr _ \<Rightarrow>
          (case findRegistrationById d rid of
             None \<Rightarrow> Inl (Registration_not_found, d)
           | Some r \<Rightarrow>
               (case findEventById d (r_event r) of
                  None \<Rightarrow> Inl (Server_error, d)
                | Some owner \<Rightarrow>
                    if createdBy owner \<noteq> user_id u \<and> role u \<noteq> Admin
                    then Inl (Not_authorized, d)
                    else
                      let notes = map_option trim body_notes;
                          oldStatus = r_status r;
                          d' = saveRegistration d (setNotes notes (r\<lparr>r_status := status'\<rparr>))
                      in if oldStatus \<noteq> status' then
                           (case findEventById d' (r_event r) of
                              None \<Rightarrow> Inr d'
                            | Some e \<Rightarrow>
                                (case saveEvent d'
                                  (if oldStatus = confirmed \<and> status' \<noteq> confirmed
                                   then e\<lparr>currentParticipants :=
                                            max 0 (currentParticipants e - 1)\<rparr>
                                   else if oldStatus \<noteq> confirmed \<and> status' = confirmed
                                   then e\<lparr>currentParticipants := currentParticipants e + 1\<rparr>
                                   else e) of
                                   None \<Rightarrow> Inl (Server_error, d')
                                 | Some d'' \<Rightarrow> Inr d''))
                         else Inr d')))"

definition event_date :: "event \<Rightarrow> date option" where
  \<comment> \<open>\<^verbatim>\<open>registration.event.date\<close>: the Event schema has no path of that name\<close>
  "event_date e = None"

definition delete_registration :: "db \<Rightarrow> date \<Rightarrow> user \<Rightarrow> object_id \<Rightarrow> outcome" where
  \<comment> \<open>DELETE /api/registrations/:id; the event is saved before the registration is\<close>
  "delete_registration d now u rid =
     (case findRegistrationById d rid of
        None \<Rightarrow> Inl (Registration_not_found, d)
      | Some r \<Rightarrow>
          if r_participant r \<noteq> user_id u then Inl (Not_authorized, d)
          else
            (case findEventById d (r_event r) of
               None \<Rightarrow> Inl (Server_error, d)
             | Some ev \<Rightarrow>
                 if (case event_date ev of None \<Rightarrow> False | Some dt \<Rightarrow> now \<ge> dt)
                 then Inl (Event_already_started, d)
                 else if r_status r = confirmed
                 then (case saveEvent d
                              (ev\<lparr>currentParticipants :=
                                    max 0 (currentParticipants ev - 1)\<rparr>) of
                         None \<Rightarrow> Inl (Server_error, d)
                       | Some d' \<Rightarrow> Inr (saveRegistration d' (r\<lparr>r_isActive := False\<rparr>)))
                 else Inr (saveRegistration d (r\<lparr>r_isActive := False\<rparr>))))"

section \<open>Requests and runs\<close>

datatype request =
    EventRegister user params
  | EventUnregister user params
  | EventAttendance user params "object_id option"
  | RegistrationCreate user object_id registration_type
  | RegistrationStatus user object_id registration_status "jsstring option"
  | RegistrationDelete user object_id

fun handle :: "db \<Rightarrow> date \<Rightarrow> request \<Rightarrow> outcome" where
  "handle d now (EventRegister u ps) = post_register d now u ps"
| "handle d now (EventUnregister u ps) = post_unregister d u ps"
| "handle d now (EventAttendance u ps uid) = post_attendance d now u ps uid"
| "handle d now (RegistrationCreate u ev ty) = post_registration d now u ev ty"
| "handle d now (RegistrationStatus u rid st notes) = put_registration_status d u rid st notes"
| "handle d now (RegistrationDelete u rid) = delete_registration d now u rid"

text \<open>
  The events router declares its three roster routes with the one parameter
  \<^verbatim>\<open>:id\<close> (\<^verbatim>\<open>/:id/register\<close>, \<^verbatim>\<open>/:id/unregister\<close>,
  \<^verbatim>\<open>/:id/attendance\<close>) and does not merge the parameters of a parent router, so
  the \<^verbatim>\<open>req.params\<close> of a request that reaches their middleware holds exactly the
  name \<^verbatim>\<open>id\<close>. A request is routed when its parameters are of that form.
\<close>

fun routed :: "request \<Rightarrow> bool" where
  "routed (EventRegister u ps) = (map fst ps = [''id''])"
| "routed (EventUnregister u ps) = (map fst ps = [''id''])"
| "routed (EventAttendance u ps uid) = (map fst ps = [''id''])"
| "routed _ = True"

text \<open>A run in which every request succeeds: the first error response ends it.\<close>

fun run_all :: "db \<Rightarrow> (date \<times> request) list \<Rightarrow> outcome" where
  "run_all d [] = Inr d"
| "run_all d ((now, rq) # rqs) =
     (case handle d now rq of Inl err \<Rightarrow> Inl err | Inr d' \<Rightarrow> run_all d' rqs)"

text \<open>A run of any requests, each leaving the store to the next whatever its response.\<close>

definition exec :: "db \<Rightarrow> date \<times> request \<Rightarrow> db" where
  "exec d x = (case handle d (fst x) (snd x) of Inl (_, d') \<Rightarrow> d' | Inr d' \<Rightarrow> d')"

definition run :: "db \<Rightarrow> (date \<times> request) list \<Rightarrow> db" where
  "run d rqs = foldl exec d rqs"

section \<open>Kinds of requests, and the roster invariant\<close>

text \<open>A request that registers a user for event \<open>eid\<close>, on the roster or in the ledger.\<close>

fun registers_for :: "object_id \<Rightarrow> request \<Rightarrow> bool" where
  "registers_for eid (EventRegister u ps) = (map_of ps ''eventId'' = Some eid)"
| "registers_for eid (RegistrationCreate u ev ty) = (ev = eid)"
| "registers_for eid _ = False"

text \<open>A request of the events router that works on the roster.\<close>

fun roster_request :: "request \<Rightarrow> bool" where
  "roster_request (EventRegister u ps) = True"
| "roster_request (EventUnregister u ps) = True"
| "roster_request (EventAttendance u ps uid) = True"
| "roster_request _ = False"

definition active_count :: "roster_entry list \<Rightarrow> int" where
  \<comment> \<open>the number of roster entries that are registered, attended or completed\<close>
  "active_count ps =
     int (length (filter (\<lambda>p. p_status p = Registered \<or> p_status p = Attended \<or>
                               p_status p = Completed) ps))"

definition roster_consistent :: "event \<Rightarrow> bool" where
  "roster_consistent e \<longleftrightarrow>
     currentParticipants e = active_count (participants e) \<and>
     distinct (map userId (participants e)) \<and>
     list_all (\<lambda>p. p_status p \<noteq> Cancelled) (participants e)"

section \<open>Sample data\<close>

text \<open>
  An event as POST /api/events stores it, with the defaults of the schema: status Live,
  active, no participants, all counters zero, the creator as its only organizer.
\<close>

definition new_event ::
  "object_id \<Rightarrow> object_id \<Rightarrow> date \<Rightarrow> date \<Rightarrow> date \<Rightarrow> int \<Rightarrow> event" where
  "new_event i creator start end' deadline maxP =
     \<lparr>event_id = i, category = Technical, tags = [], startDate = start, endDate = end',
      maxParticipants = maxP, currentParticipants = 0,
      registrationDeadline = Some deadline, status = Live, isActive = True,
      createdBy = creator, organizers = [creator], moderators = [], participants = [],
      views = 0, registrations = 0, attendance = 0\<rparr>"

definition prof :: user where
  "prof = \<lparr>user_id = 1, role = Faculty\<rparr>"

definition alice :: user where
  "alice = \<lparr>user_id = 5, role = Participant\<rparr>"

definition bob :: user where
  "bob = \<lparr>user_id = 6, role = Participant\<rparr>"

definition carol :: user where
  "carol = \<lparr>user_id = 7, role = Participant\<rparr>"

text \<open>A ledger entry of event 1 as POST /api/registrations stores it.\<close>

definition entry :: "object_id \<Rightarrow> object_id \<Rightarrow> registration_status \<Rightarrow> registration" where
  "entry i u st =
     \<lparr>reg_id = i, r_event = 1, r_participant = u, registrationType = participant,
      r_status = st, r_isActive = True, coordinatorNotes = None\<rparr>"

text \<open>
  Event 1, created by user 1, runs from 100 to 200, takes registrations until 50 and has
  room for two participants.
\<close>

definition event1 :: event where
  "event1 = new_event 1 1 100 200 50 2"

definition joined :: "object_id \<Rightarrow> roster_entry" where
  \<comment> \<open>the roster entry \<^verbatim>\<open>registerUser\<close> pushes, here at time 10\<close>
  "joined u = \<lparr>userId = u, registrationDate = 10, p_status = Registered,
               attendanceMarked = False, attendanceDate = None\<rparr>"

definition store :: "event \<Rightarrow> registration list \<Rightarrow> db" where
  "store e rs = \<lparr>db_events = [e], db_registrations = rs\<rparr>"

section \<open>Properties of the store\<close>

text \<open>The definitions a concrete run is evaluated with.\<close>

lemmas store_defs = findEventById_def saveEvent_def storeEvent_def validEvent_def
  findRegistrationById_def
  findRegistration_def saveRegistration_def insertRegistration_def fresh_reg_id_def

lemmas handler_defs = post_register_def post_unregister_def post_attendance_def
  post_registration_def put_registration_status_def delete_registration_def
  canParticipateInEvent_def isRegisteredForEvent_def requireFaculty_def
  requireOwnershipOrAdmin_def findEventByParam_def canUserRegister_def registerUser_def
  markAttendance_def isRegistrationOpen_def isFull_def deadlinePassed_def event_date_def
  response_def setNotes_def trim_def

lemmas sample_defs = store_def event1_def new_event_def entry_def joined_def
  alice_def bob_def carol_def prof_def

lemma find_update_first_same:
  "k e = i \<Longrightarrow>
   find (\<lambda>x. k x = i) (update_first (\<lambda>x. k x = i) (\<lambda>_. e) xs)
     = map_option (\<lambda>_. e) (find (\<lambda>x. k x = i) xs)"
  by (induction xs) auto

lemma find_update_first_other:
  "i \<noteq> j \<Longrightarrow> (\<And>x. k x = i \<Longrightarrow> k (f x) = i) \<Longrightarrow>
   find (\<lambda>x. k x = j) (update_first (\<lambda>x. k x = i) f xs) = find (\<lambda>x. k x = j) xs"
  by (induction xs) auto

lemma findEventById_id: "findEventById d i = Some e \<Longrightarrow> event_id e = i"
  by (auto simp: findEventById_def find_Some_iff)

lemma findEventById_storeEvent:
  "findEventById (storeEvent d e) i =
     (if i = event_id e then map_option (\<lambda>_. e) (findEventById d i) else findEventById d i)"
proof (cases "i = event_id e")
  case True
  have "find (\<lambda>x. event_id x = event_id e)
          (update_first (\<lambda>x. event_id x = event_id e) (\<lambda>_. e) (db_events d))
        = map_option (\<lambda>_. e) (find (\<lambda>x. event_id x = event_id e) (db_events d))"
    by (rule find_update_first_same) simp
  then show ?thesis using True by (simp add: findEventById_def storeEvent_def)
next
  case False
  then show ?thesis
    using find_update_first_other [of "event_id e" i event_id "\<lambda>_. e" "db_events d"]
    by (simp add: findEventById_def storeEvent_def)
qed

lemma db_registrations_storeEvent: "db_registrations (storeEvent d e) = db_registrations d"
  by (simp add: storeEvent_def)

lemma db_events_saveRegistration: "db_events (saveRegistration d r) = db_events d"
  by (simp add: saveRegistration_def)

lemma findEventById_saveRegistration:
  "findEventById (saveRegistration d r) i = findEventById d i"
  by (simp add: findEventById_def db_events_saveRegistration)

lemma findRegistrationById_storeEvent:
  "findRegistrationById (storeEvent d e) i = findRegistrationById d i"
  by (simp add: findRegistrationById_def db_registrations_storeEvent)

lemma findRegistrationById_id: "findRegistrationById d i = Some r \<Longrightarrow> reg_id r = i"
  by (auto simp: findRegistrationById_def find_Some_iff)

lemma findRegistrationById_saveRegistration:
  "findRegistrationById d (reg_id r) = Some r0 \<Longrightarrow>
   findRegistrationById (saveRegistration d r) (reg_id r) = Some r"
  using find_update_first_same [of reg_id r "reg_id r" "db_registrations d"]
  by (simp add: findRegistrationById_def saveRegistration_def)

lemma findEventById_storeEvent_same:
  "findEventById d (event_id e) = Some e0 \<Longrightarrow> findEventById (storeEvent d e) (event_id e) = Some e"
  by (simp add: findEventById_storeEvent)

lemma findEventById_ledger_update:
  "findEventById (d\<lparr>db_registrations := rs\<rparr>) i = findEventById d i"
  by (simp add: findEventById_def)

lemma saveEvent_Some: "saveEvent d e = Some d' \<longleftrightarrow> validEvent e \<and> d' = storeEvent d e"
  by (auto simp: saveEvent_def)

lemma saveEvent_valid: "validEvent e \<Longrightarrow> saveEvent d e = Some (storeEvent d e)"
  by (simp add: saveEvent_def)

section \<open>Status derivation\<close>

text \<open>
  The virtual \<^verbatim>\<open>eventStatus\<close> answers with the stored status: its date-based
  branches are never reached for a status of the schema's enum.
\<close>

lemma eventStatus_stored: "eventStatus now e = Some (status e)"
  by (cases "status e") (simp_all add: eventStatus_def)

text \<open>
  C6. For every now, start and end with start \<open>\<le>\<close> end, the status the listing computes is
  Past exactly when end < now, Upcoming exactly when start > now and Live exactly when
  start \<open>\<le>\<close> now \<open>\<le>\<close> end, whatever status is stored; so it is exactly one of the three, and
  it is Live when start = now = end.
\<close>

theorem computedStatus_phase:
  assumes "startDate e \<le> endDate e"
  shows "(computedStatus now e = Past \<longleftrightarrow> endDate e < now) \<and>
         (computedStatus now e = Upcoming \<longleftrightarrow> startDate e > now) \<and>
         (computedStatus now e = Live \<longleftrightarrow> startDate e \<le> now \<and> now \<le> endDate e) \<and>
         (startDate e = now \<and> endDate e = now \<longrightarrow> computedStatus now e = Live)"
  using assms by (auto simp: computedStatus_def)

theorem computedStatus_phase_witness:
  "startDate (new_event 1 1 5 5 3 0) \<le> endDate (new_event 1 1 5 5 3 0) \<and>
   computedStatus 5 (new_event 1 1 5 5 3 0) = Live \<and>
   computedStatus 6 (new_event 1 1 5 5 3 0) = Past \<and>
   computedStatus 4 (new_event 1 1 5 5 3 0) = Upcoming"
  using computedStatus_phase [of "new_event 1 1 5 5 3 0" 5]
        computedStatus_phase [of "new_event 1 1 5 5 3 0" 6]
        computedStatus_phase [of "new_event 1 1 5 5 3 0" 4]
  by (simp add: new_event_def)

section \<open>Status changes of a ledger entry\<close>

lemma setNotes_fields:
  "reg_id (setNotes n r) = reg_id r" "r_status (setNotes n r) = r_status r"
  "r_event (setNotes n r) = r_event r" "r_participant (setNotes n r) = r_participant r"
  "r_isActive (setNotes n r) = r_isActive r"
  by (simp_all add: setNotes_def split: option.splits list.splits)

lemma put_registration_status_effect:
  assumes reg: "findRegistrationById d rid = Some r"
    and ev: "findEventById d (r_event r) = Some e"
    and valid: "validEvent e"
    and auth: "role u = Admin \<or> (role u = Faculty \<and> createdBy e = user_id u)"
  shows "\<exists>d' r'. put_registration_status d u rid st notes = Inr d' \<and>
           findRegistrationById d' rid = Some r' \<and> r_status r' = st \<and> r_event r' = r_event r \<and>
           findEventById d' (r_event r) =
             Some (if r_status r = confirmed \<and> st \<noteq> confirmed
                   then e\<lparr>currentParticipants := max 0 (currentParticipants e - 1)\<rparr>
                   else if r_status r \<noteq> confirmed \<and> st = confirmed
                   then e\<lparr>currentParticipants := currentParticipants e + 1\<rparr>
                   else e)"
proof -
  define r' where "r' = setNotes (map_option trim notes) (r\<lparr>r_status := st\<rparr>)"
  define d1 where "d1 = saveRegistration d r'"
  have rid: "reg_id r = rid" using reg by (rule findRegistrationById_id)
  have eid: "event_id e = r_event r" using ev by (rule findEventById_id)
  have rid': "reg_id r' = rid" by (simp add: r'_def rid setNotes_fields)
  have reg1: "findRegistrationById d1 rid = Some r'"
    unfolding d1_def using findRegistrationById_saveRegistration [of d r' r] reg rid' by simp
  have ev1: "findEventById d1 (r_event r) = Some e"
    by (simp add: d1_def findEventById_saveRegistration ev)
  have fac: "requireFaculty u = Inr ()" using auth by (auto simp: requireFaculty_def)
  have own: "\<not> (createdBy e \<noteq> user_id u \<and> role u \<noteq> Admin)" using auth by auto
  show ?thesis
  proof (cases "r_status r = st")
    case True
    have "put_registration_status d u rid st notes = Inr d1"
      using reg ev fac own True
      by (simp add: put_registration_status_def d1_def r'_def Let_def)
    then show ?thesis using reg1 ev1 True by (auto simp: r'_def setNotes_fields)
  next
    case False
    define e' where "e' = (if r_status r = confirmed \<and> st \<noteq> confirmed
                   then e\<lparr>currentParticipants := max 0 (currentParticipants e - 1)\<rparr>
                   else if r_status r \<noteq> confirmed \<and> st = confirmed
                   then e\<lparr>currentParticipants := currentParticipants e + 1\<rparr>
                   else e)"
    have eid': "event_id e' = r_event r" by (simp add: e'_def eid)
    have valid': "validEvent e'" using valid by (simp add: e'_def validEvent_def)
    have "put_registration_status d u rid st notes = Inr (storeEvent d1 e')"
      using reg ev fac own False ev1 saveEvent_valid [OF valid', of d1]
      by (simp add: put_registration_status_def d1_def [symmetric] r'_def [symmetric] Let_def
               e'_def [symmetric])
    moreover have "findRegistrationById (storeEvent d1 e') rid = Some r'"
      by (simp add: findRegistrationById_storeEvent reg1)
    moreover have "findEventById (storeEvent d1 e') (r_event r) = Some e'"
      using findEventById_storeEvent_same [of d1 e' e] ev1 eid' by simp
    ultimately show ?thesis by (auto simp: r'_def e'_def setNotes_fields)
  qed
qed

text \<open>
  C8. For a ledger entry with status pending, on an event stored with its
  registrationDeadline and with a counter that is not negative, and for a caller allowed to
  change the entry: changing the status to confirmed succeeds and adds exactly 1 to the
  event's currentParticipants; changing it from there to rejected succeeds and takes
  exactly 1 away; changing it from pending to rejected directly succeeds and leaves
  currentParticipants as it was.
\<close>

theorem status_scenario:
  assumes reg: "findRegistrationById d rid = Some r"
    and ev: "findEventById d (r_event r) = Some e"
    and dl: "registrationDeadline e = Some deadline"
    and pend: "r_status r = pending"
    and auth: "role u = Admin \<or> (role u = Faculty \<and> createdBy e = user_id u)"
    and nonneg: "0 \<le> currentParticipants e"
  shows "\<exists>d1 e1 d2 e2 d3 e3.
           put_registration_status d u rid confirmed n1 = Inr d1 \<and>
           findEventById d1 (r_event r) = Some e1 \<and>
           currentParticipants e1 = currentParticipants e + 1 \<and>
           put_registration_status d1 u rid rejected n2 = Inr d2 \<and>
           findEventById d2 (r_event r) = Some e2 \<and>
           currentParticipants e2 = currentParticipants e1 - 1 \<and>
           put_registration_status d u rid rejected n3 = Inr d3 \<and>
           findEventById d3 (r_event r) = Some e3 \<and>
           currentParticipants e3 = currentParticipants e"
proof -
  have valid: "validEvent e" using dl by (simp add: validEvent_def)
  obtain d1 r1 where s1: "put_registration_status d u rid confirmed n1 = Inr d1"
    and r1: "findRegistrationById d1 rid = Some r1" "r_status r1 = confirmed"
            "r_event r1 = r_event r"
    and e1: "findEventById d1 (r_event r) =
               Some (e\<lparr>currentParticipants := currentParticipants e + 1\<rparr>)"
    using put_registration_status_effect [OF reg ev valid auth, of confirmed n1] pend by auto
  let ?e1 = "e\<lparr>currentParticipants := currentParticipants e + 1\<rparr>"
  have ev1: "findEventById d1 (r_event r1) = Some ?e1" using e1 r1(3) by simp
  have valid1: "validEvent ?e1" using valid by (simp add: validEvent_def)
  have auth1: "role u = Admin \<or> (role u = Faculty \<and> createdBy ?e1 = user_id u)"
    using auth by simp
  obtain d2 where s2: "put_registration_status d1 u rid rejected n2 = Inr d2"
    and e2: "findEventById d2 (r_event r) =
               Some (?e1\<lparr>currentParticipants := max 0 (currentParticipants ?e1 - 1)\<rparr>)"
    using put_registration_status_effect [OF r1(1) ev1 valid1 auth1, of rejected n2] r1(2,3)
    by auto
  obtain d3 where s3: "put_registration_status d u rid rejected n3 = Inr d3"
    and e3: "findEventById d3 (r_event r) = Some e"
    using put_registration_status_effect [OF reg ev valid auth, of rejected n3] pend by auto
  show ?thesis using s1 e1 s2 e2 s3 e3 nonneg by simp
qed

theorem status_scenario_witness:
  "findRegistrationById (store event1 [entry 1 5 pending]) 1 = Some (entry 1 5 pending) \<and>
   findEventById (store event1 [entry 1 5 pending]) 1 = Some event1 \<and>
   (\<exists>d1 e1 d2 e2 d3 e3.
      put_registration_status (store event1 [entry 1 5 pending]) prof 1 confirmed None = Inr d1 \<and>
      findEventById d1 1 = Some e1 \<and> currentParticipants e1 = 1 \<and>
      put_registration_status d1 prof 1 rejected None = Inr d2 \<and>
      findEventById d2 1 = Some e2 \<and> currentParticipants e2 = 0 \<and>
      put_registration_status (store event1 [entry 1 5 pending]) prof 1 rejected None = Inr d3 \<and>
      findEventById d3 1 = Some e3 \<and> currentParticipants e3 = 0)"
proof -
  have reg: "findRegistrationById (store event1 [entry 1 5 pending]) 1 = Some (entry 1 5 pending)"
    by (simp add: findRegistrationById_def store_def entry_def)
  have ev: "findEventById (store event1 [entry 1 5 pending]) (r_event (entry 1 5 pending))
              = Some event1"
    by (simp add: findEventById_def store_def entry_def event1_def new_event_def)
  have dl: "registrationDeadline event1 = Some 50" by (simp add: event1_def new_event_def)
  have pend: "r_status (entry 1 5 pending) = pending" by (simp add: entry_def)
  have auth: "role prof = Admin \<or>
              (role prof = Faculty \<and> createdBy event1 = user_id prof)"
    by (simp add: prof_def event1_def new_event_def)
  have nonneg: "0 \<le> currentParticipants event1"
    by (simp add: event1_def new_event_def)
  have ev': "r_event (entry 1 5 pending) = 1" by (simp add: entry_def)
  have c0: "currentParticipants event1 = 0" by (simp add: event1_def new_event_def)
  show ?thesis
    using status_scenario [OF reg ev dl pend auth nonneg, of None None None] reg ev
    unfolding ev' c0 by auto
qed

section \<open>The roster handlers\<close>

lemma canUserRegister_iff:
  "canUserRegister now e uid \<longleftrightarrow>
     find (\<lambda>p. userId p = uid) (participants e) = None \<and>
     (\<exists>deadline. registrationDeadline e = Some deadline \<and> now < deadline) \<and>
     status e = Live \<and>
     \<not> (maxParticipants e > 0 \<and> currentParticipants e \<ge> maxParticipants e)"
  by (auto simp: canUserRegister_def isRegistrationOpen_def isFull_def split: option.splits)

lemma post_register_effect:
  assumes par: "map_of ps ''eventId'' = Some eid"
    and ev: "findEventById d eid = Some e"
    and can: "canUserRegister now e (user_id u)"
  shows "post_register d now u ps =
           Inr (storeEvent d
                  (e\<lparr>participants := participants e @
                        [\<lparr>userId = user_id u, registrationDate = now, p_status = Registered,
                          attendanceMarked = False, attendanceDate = None\<rparr>],
                     currentParticipants := currentParticipants e + 1,
                     registrations := registrations e + 1\<rparr>))"
proof -
  have "registrationDeadline e \<noteq> None" using can by (auto simp: canUserRegister_iff)
  then show ?thesis
    using assms
    by (simp add: post_register_def canParticipateInEvent_def registerUser_def saveEvent_def
             validEvent_def)
qed

lemma post_register_refused:
  assumes par: "map_of ps ''eventId'' = Some eid"
    and ev: "findEventById d eid = Some e"
    and cannot: "\<not> canUserRegister now e (user_id u)"
  shows "post_register d now u ps = Inl (Cannot_register_for_this_event, d)"
  using assms by (simp add: post_register_def canParticipateInEvent_def)

lemma post_unregister_effect:
  assumes par: "map_of ps ''eventId'' = Some eid"
    and ev: "findEventById d eid = Some e"
    and mem: "find (\<lambda>p. userId p = user_id u) (participants e) = Some p"
    and valid: "validEvent e"
  shows "post_unregister d u ps =
           Inr (storeEvent d
                  (e\<lparr>participants := filter (\<lambda>p. userId p \<noteq> user_id u) (participants e),
                     currentParticipants := currentParticipants e - 1,
                     registrations := registrations e - 1\<rparr>))"
  using assms
  by (simp add: post_unregister_def isRegisteredForEvent_def saveEvent_def validEvent_def)

text \<open>
  A request the router delivers to one of the two roster routes carries no
  \<^verbatim>\<open>eventId\<close>, and the middleware answers it with 'Event ID required'; nothing is
  written.
\<close>

lemma routed_params: "map fst ps = [''id''] \<Longrightarrow> map_of ps ''eventId'' = None"
  by (cases ps) auto

lemma routed_register:
  "routed (EventRegister u ps) \<Longrightarrow> handle d now (EventRegister u ps) = Inl (Event_ID_required, d)"
  by (simp add: post_register_def canParticipateInEvent_def routed_params)

lemma routed_unregister:
  "routed (EventUnregister u ps) \<Longrightarrow>
   handle d now (EventUnregister u ps) = Inl (Event_ID_required, d)"
  by (simp add: post_unregister_def isRegisteredForEvent_def routed_params)

text \<open>No outcome of the unregister handler touches the ledger.\<close>

lemma unregister_ledger_frame:
  "db_registrations (exec d (now, EventUnregister u ps)) = db_registrations d"
  by (auto simp: exec_def post_unregister_def saveEvent_def db_registrations_storeEvent
           split: sum.splits option.splits prod.splits)

text \<open>
  C10. Event 1 has user 5 on its roster and a ledger entry of user 5. The request POST
  /api/events/1/unregister of user 5, with the parameters the router gives it, is answered
  'Event ID required' and leaves the store as it was: the ledger entry is unchanged, but
  the user is still on the roster and currentParticipants and registrations still are 1.
\<close>

theorem routed_unregister_removes_nothing:
  "routed (EventUnregister alice [(''id'', 1)]) \<and>
   find (\<lambda>p. userId p = user_id alice)
     (participants (event1\<lparr>participants := [joined 5], currentParticipants := 1,
                           registrations := 1\<rparr>)) = Some (joined 5) \<and>
   findRegistration
     (store (event1\<lparr>participants := [joined 5], currentParticipants := 1, registrations := 1\<rparr>)
        [entry 1 5 confirmed]) 1 (user_id alice) = Some (entry 1 5 confirmed) \<and>
   handle
     (store (event1\<lparr>participants := [joined 5], currentParticipants := 1, registrations := 1\<rparr>)
        [entry 1 5 confirmed])
     10 (EventUnregister alice [(''id'', 1)])
   = Inl (Event_ID_required,
          store (event1\<lparr>participants := [joined 5], currentParticipants := 1,
                         registrations := 1\<rparr>)
            [entry 1 5 confirmed])"
  by (simp add: store_defs handler_defs sample_defs)

section \<open>Preconditions of a registration\<close>





text \<open>
  C5, as amended. POST /api/registrations evaluates its preconditions in the order: the
  event exists and is active ('Event not found or inactive'), capacity is available
  ('Event is full'), the deadline has not passed ('Registration deadline has passed'), the
  user has no ledger entry for the event ('Already registered for this event'); the first
  check that fails gives the error and nothing is written, and the registration succeeds
  when none fails.
\<close>

theorem post_registration_order:
  "(findEventById d eid = None \<longrightarrow>
      post_registration d now u eid ty = Inl (Event_not_found_or_inactive, d)) \<and>
   (findEventById d eid = Some e \<and> \<not> isActive e \<longrightarrow>
      post_registration d now u eid ty = Inl (Event_not_found_or_inactive, d)) \<and>
   (findEventById d eid = Some e \<and> isActive e \<and>
    maxParticipants e > 0 \<and> currentParticipants e \<ge> maxParticipants e \<longrightarrow>
      post_registration d now u eid ty = Inl (Event_is_full, d)) \<and>
   (findEventById d eid = Some e \<and> isActive e \<and>
    \<not> (maxParticipants e > 0 \<and> currentParticipants e \<ge> maxParticipants e) \<and>
    registrationDeadline e = Some deadline \<and> now > deadline \<longrightarrow>
      post_registration d now u eid ty = Inl (Registration_deadline_has_passed, d)) \<and>
   (findEventById d eid = Some e \<and> isActive e \<and>
    \<not> (maxParticipants e > 0 \<and> currentParticipants e \<ge> maxParticipants e) \<and>
    registrationDeadline e = Some deadline \<and> now \<le> deadline \<and>
    findRegistration d eid (user_id u) = Some r \<longrightarrow>
      post_registration d now u eid ty = Inl (Already_registered_for_this_event, d)) \<and>
   (findEventById d eid = Some e \<and> isActive e \<and>
    \<not> (maxParticipants e > 0 \<and> currentParticipants e \<ge> maxParticipants e) \<and>
    registrationDeadline e = Some deadline \<and> now \<le> deadline \<and>
    findRegistration d eid (user_id u) = None \<longrightarrow>
      (\<exists>d'. post_registration d now u eid ty = Inr d'))"
  by (auto simp: post_registration_def isFull_def deadlinePassed_def insertRegistration_def
           saveEvent_def validEvent_def)

theorem post_registration_order_witness:
  "post_registration (store event1 []) 10 alice 2 participant
     = Inl (Event_not_found_or_inactive, store event1 []) \<and>
   post_registration (store (event1\<lparr>isActive := False, currentParticipants := 2\<rparr>) []) 60 alice 1
     participant
     = Inl (Event_not_found_or_inactive,
            store (event1\<lparr>isActive := False, currentParticipants := 2\<rparr>) []) \<and>
   post_registration (store (event1\<lparr>currentParticipants := 2\<rparr>) [entry 1 5 pending]) 60 alice 1
     participant
     = Inl (Event_is_full, store (event1\<lparr>currentParticipants := 2\<rparr>) [entry 1 5 pending]) \<and>
   post_registration (store event1 [entry 1 5 pending]) 60 alice 1 participant
     = Inl (Registration_deadline_has_passed, store event1 [entry 1 5 pending]) \<and>
   post_registration (store event1 [entry 1 5 pending]) 10 alice 1 participant
     = Inl (Already_registered_for_this_event, store event1 [entry 1 5 pending]) \<and>
   (\<exists>d'. post_registration (store event1 [entry 1 5 pending]) 10 bob 1 participant = Inr d')"
proof -
  have e0: "findEventById (store event1 []) 2 = None"
    by (simp add: findEventById_def store_def event1_def new_event_def)
  have e1: "findEventById (store e rs) 1 = Some e" if "event_id e = 1" for e rs
    using that by (simp add: findEventById_def store_def)
  have i1: "event_id event1 = 1" "event_id (event1\<lparr>currentParticipants := 2\<rparr>) = 1"
    "event_id (event1\<lparr>isActive := False, currentParticipants := 2\<rparr>) = 1"
    by (simp_all add: event1_def new_event_def)
  have f: "findRegistration (store e [entry 1 5 pending]) 1 (user_id alice)
             = Some (entry 1 5 pending)"
      "findRegistration (store e [entry 1 5 pending]) 1 (user_id bob) = None" for e
    by (simp_all add: findRegistration_def store_def entry_def alice_def bob_def)
  have v: "isActive event1" "maxParticipants event1 = 2" "currentParticipants event1 = 0"
      "registrationDeadline event1 = Some 50"
    by (simp_all add: event1_def new_event_def)
  show ?thesis
    using post_registration_order [where d = "store event1 []" and eid = 2 and now = 10
         and u = alice and ty = participant]
      post_registration_order [where d = "store (event1\<lparr>isActive := False, currentParticipants := 2\<rparr>) []"
         and eid = 1 and e = "event1\<lparr>isActive := False, currentParticipants := 2\<rparr>"
         and now = 60 and u = alice and ty = participant]
      post_registration_order [where d = "store (event1\<lparr>currentParticipants := 2\<rparr>) [entry 1 5 pending]"
         and eid = 1 and e = "event1\<lparr>currentParticipants := 2\<rparr>" and now = 60 and u = alice
         and ty = participant]
      post_registration_order [where d = "store event1 [entry 1 5 pending]" and eid = 1
         and e = event1 and now = 60 and u = alice and ty = participant and deadline = 50]
      post_registration_order [where d = "store event1 [entry 1 5 pending]" and eid = 1
         and e = event1 and now = 10 and u = alice and ty = participant and deadline = 50
         and r = "entry 1 5 pending"]
      post_registration_order [where d = "store event1 [entry 1 5 pending]" and eid = 1
         and e = event1 and now = 10 and u = bob and ty = participant and deadline = 50]
      e0 e1 i1 f v
    by simp
qed

text \<open>
  The claim C5 as stated fails: on an event that is both past its registration deadline
  and full, POST /api/registrations answers 'Event is full', and the roster's
  \<^verbatim>\<open>canParticipateInEvent\<close> answers 'Cannot register for this event'.
\<close>

theorem register_closed_and_full_counterexample:
  "isActive (event1\<lparr>currentParticipants := 2\<rparr>) \<and>
   deadlinePassed 60 (event1\<lparr>currentParticipants := 2\<rparr>) \<and>
   \<not> isRegistrationOpen 60 (event1\<lparr>currentParticipants := 2\<rparr>) \<and>
   isFull (event1\<lparr>currentParticipants := 2\<rparr>) \<and>
   post_registration (store (event1\<lparr>currentParticipants := 2\<rparr>) []) 60 alice 1 participant
     = Inl (Event_is_full, store (event1\<lparr>currentParticipants := 2\<rparr>) []) \<and>
   post_register (store (event1\<lparr>currentParticipants := 2\<rparr>) []) 60 alice [(''eventId'', 1)]
     = Inl (Cannot_register_for_this_event, store (event1\<lparr>currentParticipants := 2\<rparr>) [])"
  by (simp add: event1_def new_event_def isFull_def deadlinePassed_def store_def alice_def
      post_registration_def post_register_def canParticipateInEvent_def findEventById_def
      canUserRegister_def isRegistrationOpen_def)

section \<open>Register, cancel, register again\<close>







section \<open>Capacity\<close>

lemma register_step:
  assumes kind: "registers_for eid rq"
    and ev: "findEventById d eid = Some e"
    and ok: "handle d t rq = Inr d'"
  shows "\<exists>e'. findEventById d' eid = Some e' \<and>
              currentParticipants e' = currentParticipants e + 1 \<and>
              maxParticipants e' = maxParticipants e \<and> isActive e' = isActive e"
proof (cases rq)
  case (EventRegister u ps)
  then have par: "map_of ps ''eventId'' = Some eid" using kind by simp
  have run: "post_register d t u ps = Inr d'" using ok EventRegister by simp
  have can: "canUserRegister t e (user_id u)"
    using run post_register_refused [OF par ev] by (cases "canUserRegister t e (user_id u)") auto
  let ?e' = "e\<lparr>participants := participants e @
                 [\<lparr>userId = user_id u, registrationDate = t, p_status = Registered,
                   attendanceMarked = False, attendanceDate = None\<rparr>],
               currentParticipants := currentParticipants e + 1,
               registrations := registrations e + 1\<rparr>"
  have d': "d' = storeEvent d ?e'" using run post_register_effect [OF par ev can] by simp
  have "findEventById (storeEvent d ?e') eid = Some ?e'"
    using findEventById_storeEvent_same [of d "?e'" e] ev findEventById_id [OF ev] by simp
  then show ?thesis using d' by simp
next
  case (RegistrationCreate u ev' ty)
  then have same: "ev' = eid" using kind by simp
  have run: "post_registration d t u eid ty = Inr d'" using ok RegistrationCreate same by simp
  let ?d1 = "d\<lparr>db_registrations := db_registrations d @
                 [\<lparr>reg_id = fresh_reg_id (db_registrations d), r_event = eid,
                   r_participant = user_id u, registrationType = ty,
                   r_status = pending, r_isActive = True, coordinatorNotes = None\<rparr>]\<rparr>"
  let ?e' = "e\<lparr>currentParticipants := currentParticipants e + 1\<rparr>"
  have d': "d' = storeEvent ?d1 ?e'"
    using run ev
    by (auto simp: post_registration_def insertRegistration_def saveEvent_def
             split: if_splits option.splits sum.splits)
  have "findEventById ?d1 eid = Some e" using ev by (simp add: findEventById_ledger_update)
  then have "findEventById (storeEvent ?d1 ?e') eid = Some ?e'"
    using findEventById_storeEvent_same [of "?d1" "?e'" e] findEventById_id [OF ev] by simp
  then show ?thesis using d' by simp
qed (use kind in simp_all)

lemma register_run:
  assumes ev: "findEventById d eid = Some e"
    and kind: "\<forall>x \<in> set rqs. registers_for eid (snd x)"
    and ok: "run_all d rqs = Inr d'"
  shows "\<exists>e'. findEventById d' eid = Some e' \<and>
              currentParticipants e' = currentParticipants e + int (length rqs) \<and>
              maxParticipants e' = maxParticipants e \<and> isActive e' = isActive e"
  using assms
proof (induction rqs arbitrary: d e)
  case Nil
  then show ?case by simp
next
  case (Cons x rqs)
  obtain t rq where x: "x = (t, rq)" by (cases x)
  from Cons.prems(3) x obtain d1 where s1: "handle d t rq = Inr d1"
    and rest: "run_all d1 rqs = Inr d'"
    by (auto split: sum.splits)
  have k1: "registers_for eid rq" using Cons.prems(2) x by simp
  obtain e1 where e1: "findEventById d1 eid = Some e1"
      "currentParticipants e1 = currentParticipants e + 1"
      "maxParticipants e1 = maxParticipants e" "isActive e1 = isActive e"
    using register_step [OF k1 Cons.prems(1) s1] by blast
  have "\<exists>e'. findEventById d' eid = Some e' \<and>
              currentParticipants e' = currentParticipants e1 + int (length rqs) \<and>
              maxParticipants e' = maxParticipants e1 \<and> isActive e' = isActive e1"
    using Cons.IH [OF e1(1) _ rest] Cons.prems(2) by simp
  then show ?case using e1 by auto
qed

text \<open>
  C7. For an active event with maxParticipants = N > 0 and a counter that is not negative
  (it is 0 for an event as created): after N successful registrations for it (on the
  roster or in the ledger, and nothing else), a further POST /api/registrations fails with
  'Event is full', and the event fails the capacity test, so that
  \<^verbatim>\<open>canUserRegister\<close> is false and a further POST /api/events/:id/register is
  refused. For an event with maxParticipants = 0, whatever its currentParticipants, no
  registration fails with 'Event is full': the capacity test passes, and
  \<^verbatim>\<open>canUserRegister\<close> depends on the roster and the open window only.
\<close>

theorem capacity_limit:
  assumes ev: "findEventById d eid = Some e"
  shows "(isActive e \<and> 0 < maxParticipants e \<and> 0 \<le> currentParticipants e \<and>
          int (length rqs) = maxParticipants e \<and>
          (\<forall>x \<in> set rqs. registers_for eid (snd x)) \<and> run_all d rqs = Inr d'
          \<longrightarrow> post_registration d' now v eid ty = Inl (Event_is_full, d') \<and>
              (\<exists>e'. findEventById d' eid = Some e' \<and> isFull e' \<and>
                    \<not> canUserRegister now e' (user_id v) \<and>
                    (map_of ps ''eventId'' = Some eid \<longrightarrow>
                       post_register d' now v ps
                         = Inl (Cannot_register_for_this_event, d')))) \<and>
         (maxParticipants e = 0
          \<longrightarrow> response (post_registration d now v eid ty) \<noteq> Some Event_is_full \<and>
              response (post_register d now v ps) \<noteq> Some Event_is_full \<and>
              \<not> isFull e \<and>
              canUserRegister now e (user_id v) =
                (find (\<lambda>p. userId p = user_id v) (participants e) = None \<and>
                 isRegistrationOpen now e))"
proof (intro conjI impI)
  assume h: "isActive e \<and> 0 < maxParticipants e \<and> 0 \<le> currentParticipants e \<and>
          int (length rqs) = maxParticipants e \<and>
          (\<forall>x \<in> set rqs. registers_for eid (snd x)) \<and> run_all d rqs = Inr d'"
  then obtain e' where e': "findEventById d' eid = Some e'"
      "currentParticipants e' = currentParticipants e + int (length rqs)"
      "maxParticipants e' = maxParticipants e" "isActive e' = isActive e"
    using register_run [OF ev, of rqs d'] by blast
  have full: "isFull e'" using h e' by (simp add: isFull_def)
  have act: "isActive e'" using h e' by simp
  show "post_registration d' now v eid ty = Inl (Event_is_full, d')"
    using e'(1) full act by (simp add: post_registration_def)
  have cannot: "\<not> canUserRegister now e' (user_id v)"
    using full by (simp add: canUserRegister_def split: option.splits)
  show "\<exists>e'. findEventById d' eid = Some e' \<and> isFull e' \<and>
             \<not> canUserRegister now e' (user_id v) \<and>
             (map_of ps ''eventId'' = Some eid \<longrightarrow>
                post_register d' now v ps = Inl (Cannot_register_for_this_event, d'))"
    using e'(1) full cannot post_register_refused [OF _ e'(1) cannot] by auto
next
  assume z: "maxParticipants e = 0"
  show "response (post_registration d now v eid ty) \<noteq> Some Event_is_full"
    using ev z
    by (simp add: post_registration_def isFull_def insertRegistration_def response_def
             split: option.splits)
  show "response (post_register d now v ps) \<noteq> Some Event_is_full"
    by (simp add: post_register_def canParticipateInEvent_def registerUser_def response_def
             split: option.splits sum.splits)
  show "\<not> isFull e" using z by (simp add: isFull_def)
  show "canUserRegister now e (user_id v) =
          (find (\<lambda>p. userId p = user_id v) (participants e) = None \<and>
           isRegistrationOpen now e)"
    using z by (auto simp: canUserRegister_def isFull_def split: option.splits)
qed

theorem capacity_limit_witness:
  "findEventById (store event1 []) 1 = Some event1 \<and>
   int (length [(10::int, RegistrationCreate alice 1 participant),
                (11, RegistrationCreate bob 1 participant)]) = maxParticipants event1 \<and>
   (\<exists>d'. run_all (store event1 [])
            [(10, RegistrationCreate alice 1 participant),
             (11, RegistrationCreate bob 1 participant)] = Inr d' \<and>
         post_registration d' 12 carol 1 participant = Inl (Event_is_full, d') \<and>
         post_register d' 12 carol [(''eventId'', 1)]
           = Inl (Cannot_register_for_this_event, d')) \<and>
   (\<exists>d'. post_registration
            (store (event1\<lparr>maxParticipants := 0, currentParticipants := 7\<rparr>) [])
            12 carol 1 participant = Inr d')"
proof -
  let ?rqs = "[(10::int, RegistrationCreate alice 1 participant),
               (11, RegistrationCreate bob 1 participant)]"
  have ev: "findEventById (store event1 []) 1 = Some event1"
    by (simp add: findEventById_def store_def event1_def new_event_def)
  have len: "int (length ?rqs) = maxParticipants event1"
    by (simp add: event1_def new_event_def)
  have kind: "\<forall>x \<in> set ?rqs. registers_for 1 (snd x)" by simp
  have pre: "isActive event1" "0 < maxParticipants event1" "0 \<le> currentParticipants event1"
    by (simp_all add: event1_def new_event_def)
  obtain d' where run: "run_all (store event1 []) ?rqs = Inr d'"
    by (simp add: store_defs handler_defs sample_defs)
  have par: "map_of [(''eventId'', 1)] ''eventId'' = Some (1::nat)" by simp
  have full: "post_registration d' 12 carol 1 participant = Inl (Event_is_full, d') \<and>
              post_register d' 12 carol [(''eventId'', 1)]
                = Inl (Cannot_register_for_this_event, d')"
    using capacity_limit [OF ev, where rqs = ?rqs and d' = d' and now = 12 and v = carol
        and ty = participant and ps = "[(''eventId'', 1)]"] pre len kind run par
    by blast
  let ?e0 = "event1\<lparr>maxParticipants := 0, currentParticipants := 7\<rparr>"
  have ev0: "findEventById (store ?e0 []) 1 = Some ?e0"
    by (simp add: findEventById_def store_def event1_def new_event_def)
  have "response (post_registration (store ?e0 []) 12 carol 1 participant) \<noteq> Some Event_is_full"
    using capacity_limit [OF ev0, where now = 12 and v = carol and ty = participant] by simp
  then have free: "\<exists>d'. post_registration (store ?e0 []) 12 carol 1 participant = Inr d'"
    by (simp add: store_defs handler_defs sample_defs)
  show ?thesis using ev len run full free by blast
qed

section \<open>The counter and the roster\<close>

lemma active_count_all:
  "list_all (\<lambda>p. p_status p \<noteq> Cancelled) ps \<Longrightarrow> active_count ps = int (length ps)"
proof (induction ps)
  case Nil
  then show ?case by (simp add: active_count_def)
next
  case (Cons p ps)
  then show ?case by (cases "p_status p") (simp_all add: active_count_def)
qed

lemma roster_consistent_length:
  "roster_consistent e \<longleftrightarrow>
     currentParticipants e = int (length (participants e)) \<and>
     distinct (map userId (participants e)) \<and>
     list_all (\<lambda>p. p_status p \<noteq> Cancelled) (participants e)"
  using active_count_all [of "participants e"] by (auto simp: roster_consistent_def)

lemma length_filter_one:
  "distinct (map k xs) \<Longrightarrow> find (\<lambda>x. k x = u) xs = Some y \<Longrightarrow>
   int (length (filter (\<lambda>x. k x \<noteq> u) xs)) = int (length xs) - 1"
proof (induction xs)
  case Nil
  then show ?case by simp
next
  case (Cons x xs)
  show ?case
  proof (cases "k x = u")
    case True
    then have "u \<notin> k ` set xs" using Cons.prems(1) by auto
    then have "filter (\<lambda>x. k x \<noteq> u) xs = xs" by (auto intro: filter_True)
    then show ?thesis using True by simp
  next
    case False
    then show ?thesis using Cons by simp
  qed
qed

lemma registerUser_consistent:
  assumes inv: "roster_consistent e"
    and new: "find (\<lambda>p. userId p = u) (participants e) = None"
  shows "roster_consistent
           (e\<lparr>participants := participants e @
                 [\<lparr>userId = u, registrationDate = now, p_status = Registered,
                   attendanceMarked = False, attendanceDate = None\<rparr>],
              currentParticipants := currentParticipants e + 1,
              registrations := registrations e + 1\<rparr>)"
proof -
  have "u \<notin> userId ` set (participants e)" using new by (auto simp: find_None_iff)
  then show ?thesis using inv by (simp add: roster_consistent_length)
qed

lemma unregister_consistent:
  assumes inv: "roster_consistent e"
    and mem: "find (\<lambda>p. userId p = u) (participants e) = Some p"
  shows "roster_consistent
           (e\<lparr>participants := filter (\<lambda>p. userId p \<noteq> u) (participants e),
              currentParticipants := currentParticipants e - 1,
              registrations := registrations e - 1\<rparr>)"
  using inv length_filter_one [of userId "participants e" u p] mem
  by (simp add: roster_consistent_length distinct_map_filter list_all_iff)

lemma update_first_props:
  assumes "\<And>x. k (f x) = k x"
  shows "map k (update_first P f xs) = map k xs"
    and "length (update_first P f xs) = length xs"
  using assms by (induction xs) auto

lemma update_first_list_all:
  "list_all Q xs \<Longrightarrow> (\<And>x. Q (f x)) \<Longrightarrow> list_all Q (update_first P f xs)"
  by (induction xs) auto

lemma markAttendance_consistent:
  assumes inv: "roster_consistent e" and ok: "markAttendance now e u = Inr e'"
  shows "roster_consistent e'"
proof -
  let ?f = "\<lambda>p. p\<lparr>attendanceMarked := True, attendanceDate := Some now, p_status := Attended\<rparr>"
  have e': "e' = e\<lparr>participants := update_first (\<lambda>p. userId p = u) ?f (participants e),
                    attendance := attendance e + 1\<rparr>"
    using ok by (auto simp: markAttendance_def split: option.splits)
  have "map userId (update_first (\<lambda>p. userId p = u) ?f (participants e))
          = map userId (participants e)"
       "length (update_first (\<lambda>p. userId p = u) ?f (participants e))
          = length (participants e)"
    by (simp_all add: update_first_props)
  moreover have "list_all (\<lambda>p. p_status p \<noteq> Cancelled)
                   (update_first (\<lambda>p. userId p = u) ?f (participants e))"
    using inv by (intro update_first_list_all) (simp_all add: roster_consistent_length)
  ultimately show ?thesis using inv e' by (simp add: roster_consistent_length)
qed

lemma set_update_first: "set (update_first P (\<lambda>_. e) xs) \<subseteq> insert e (set xs)"
  by (induction xs) auto

lemma storeEvent_all:
  "\<forall>x \<in> set (db_events d). Q x \<Longrightarrow> Q e \<Longrightarrow> \<forall>x \<in> set (db_events (storeEvent d e)). Q x"
  using set_update_first [of "\<lambda>x. event_id x = event_id e" e "db_events d"]
  by (auto simp: storeEvent_def)

lemma findEventById_mem: "findEventById d i = Some e \<Longrightarrow> e \<in> set (db_events d)"
  by (auto simp: findEventById_def find_Some_iff)

lemma roster_error_unchanged:
  assumes "roster_request rq" and "handle d t rq = Inl (err, d')"
  shows "d' = d"
  using assms
  by (cases rq)
     (auto simp: post_register_def post_unregister_def post_attendance_def
           split: sum.splits option.splits prod.splits)

lemma roster_step:
  assumes inv: "\<forall>e \<in> set (db_events d). roster_consistent e"
    and kind: "roster_request rq"
  shows "\<forall>e \<in> set (db_events (exec d (t, rq))). roster_consistent e"
proof (cases "handle d t rq")
  case (Inl x)
  obtain err d' where "x = (err, d')" by (cases x)
  then have "exec d (t, rq) = d"
    using Inl roster_error_unchanged [OF kind, of d t err d'] by (simp add: exec_def)
  then show ?thesis using inv by simp
next
  case (Inr d')
  have "\<forall>e \<in> set (db_events d'). roster_consistent e"
  proof (cases rq)
    case (EventRegister u ps)
    then have run: "post_register d t u ps = Inr d'" using Inr by simp
    then obtain eid e where ev: "findEventById d eid = Some e"
      and can: "canUserRegister t e (user_id u)"
      and par: "map_of ps ''eventId'' = Some eid"
      by (auto simp: post_register_def canParticipateInEvent_def
               split: option.splits if_splits sum.splits)
    have new: "find (\<lambda>p. userId p = user_id u) (participants e) = None"
      using can by (simp add: canUserRegister_iff)
    have "roster_consistent e" using inv findEventById_mem [OF ev] by blast
    then show ?thesis
      using run post_register_effect [OF par ev can] registerUser_consistent [OF _ new]
        storeEvent_all [OF inv] by auto
  next
    case (EventUnregister u ps)
    then have run: "post_unregister d u ps = Inr d'" using Inr by simp
    then obtain eid e p where ev: "findEventById d eid = Some e"
      and mem: "find (\<lambda>p. userId p = user_id u) (participants e) = Some p"
      and par: "map_of ps ''eventId'' = Some eid"
      and valid: "validEvent e"
      by (auto simp: post_unregister_def isRegisteredForEvent_def saveEvent_def validEvent_def
               split: option.splits if_splits sum.splits)
    have "roster_consistent e" using inv findEventById_mem [OF ev] by blast
    then show ?thesis
      using run post_unregister_effect [OF par ev mem valid] unregister_consistent [OF _ mem]
        storeEvent_all [OF inv] by auto
  next
    case (EventAttendance u ps uid)
    then have run: "post_attendance d t u ps uid = Inr d'" using Inr by simp
    then obtain e e' v where ev: "findEventByParam d ps = Some e"
      and mark: "markAttendance t e v = Inr e'" and d': "d' = storeEvent d e'"
      by (auto simp: post_attendance_def saveEvent_def
               split: option.splits if_splits sum.splits)
    have "e \<in> set (db_events d)"
      using ev findEventById_mem by (auto simp: findEventByParam_def split: option.splits)
    then have "roster_consistent e" using inv by blast
    then show ?thesis
      using markAttendance_consistent [OF _ mark] storeEvent_all [OF inv] d' by auto
  qed (use kind in simp_all)
  then show ?thesis using Inr by (simp add: exec_def)
qed

lemma roster_run:
  assumes inv: "\<forall>e \<in> set (db_events d). roster_consistent e"
    and kind: "\<forall>x \<in> set rqs. roster_request (snd x)"
  shows "\<forall>e \<in> set (db_events (run d rqs)). roster_consistent e"
  using assms
proof (induction rqs arbitrary: d)
  case Nil
  then show ?case by (simp add: run_def)
next
  case (Cons x rqs)
  obtain t rq where x: "x = (t, rq)" by (cases x)
  have "\<forall>e \<in> set (db_events (exec d x)). roster_consistent e"
    using roster_step [OF Cons.prems(1), of rq t] Cons.prems(2) x by simp
  then have "\<forall>e \<in> set (db_events (run (exec d x) rqs)). roster_consistent e"
    using Cons.IH Cons.prems(2) by simp
  then show ?case by (simp add: run_def)
qed

text \<open>
  C2, as amended. In a store where every event's currentParticipants equals the number of
  its roster entries that are registered, attended or completed, no user has two roster
  entries and no entry is cancelled (so for events as they are created), the same holds
  after every sequence of roster requests, successful or not: POST
  /api/events/:id/register, POST /api/events/:id/unregister and POST
  /api/events/:id/attendance keep currentParticipants equal to the number of roster
  entries that are registered, attended or completed.
\<close>

theorem roster_counter_invariant:
  assumes inv: "\<forall>e \<in> set (db_events d). roster_consistent e"
    and kind: "\<forall>x \<in> set rqs. roster_request (snd x)"
  shows "\<forall>e \<in> set (db_events (run d rqs)).
           currentParticipants e = active_count (participants e)"
  using roster_run [OF inv kind] by (simp add: roster_consistent_def)

theorem roster_counter_invariant_witness:
  "list_all roster_consistent (db_events (store event1 [])) \<and>
   (\<exists>e'. findEventById
            (run (store event1 [])
               [(10, EventRegister alice [(''eventId'', 1)]),
                (11, EventRegister bob [(''eventId'', 1)]),
                (12, EventAttendance prof [(''id'', 1)] (Some 5)),
                (13, EventUnregister bob [(''eventId'', 1)]),
                (14, EventUnregister carol [(''eventId'', 1)])]) 1 = Some e' \<and>
         map userId (participants e') = [5] \<and>
         currentParticipants e' = 1 \<and>
         currentParticipants e' = active_count (participants e'))"
proof -
  let ?rqs = "[(10::int, EventRegister alice [(''eventId'', 1)]),
               (11, EventRegister bob [(''eventId'', 1)]),
               (12, EventAttendance prof [(''id'', 1)] (Some 5)),
               (13, EventUnregister bob [(''eventId'', 1)]),
               (14, EventUnregister carol [(''eventId'', 1)])]"
  have inv: "\<forall>e \<in> set (db_events (store event1 [])). roster_consistent e"
    by (simp add: store_def event1_def new_event_def roster_consistent_def active_count_def)
  have kind: "\<forall>x \<in> set ?rqs. roster_request (snd x)" by simp
  obtain e' where e': "findEventById (run (store event1 []) ?rqs) 1 = Some e'"
    and who: "map userId (participants e') = [5]" and one: "currentParticipants e' = 1"
    by (simp add: run_def exec_def store_defs handler_defs sample_defs)
  have "e' \<in> set (db_events (run (store event1 []) ?rqs))"
    using e' by (rule findEventById_mem)
  then have "currentParticipants e' = active_count (participants e')"
    using roster_counter_invariant [OF inv kind] by blast
  then show ?thesis using inv e' who one by (auto simp: list_all_iff)
qed

text \<open>
  The claim C2 as stated fails for the ledger: confirming a pending ledger entry, and
  creating one with POST /api/registrations, each raise currentParticipants to 1 while the
  roster stays empty.
\<close>

theorem ledger_counter_counterexample:
  "currentParticipants event1 = active_count (participants event1) \<and>
   (\<exists>d' e'. put_registration_status (store event1 [entry 1 5 pending]) prof 1 confirmed None
               = Inr d' \<and>
            findEventById d' 1 = Some e' \<and>
            currentParticipants e' = 1 \<and> active_count (participants e') = 0) \<and>
   (\<exists>d' e'. post_registration (store event1 []) 10 alice 1 participant = Inr d' \<and>
            findEventById d' 1 = Some e' \<and>
            currentParticipants e' = 1 \<and> active_count (participants e') = 0)"
  by (simp add: store_defs handler_defs sample_defs active_count_def)

section \<open>The counter is never negative\<close>

lemma lookup_events: "db_events d' = db_events d \<Longrightarrow> findEventById d' i = findEventById d i"
  by (simp add: findEventById_def)

lemma exec_events:
  assumes r: "routed rq"
  shows "db_events (exec d (t, rq)) = db_events d \<or>
         (\<exists>e0 e1. findEventById d (event_id e1) = Some e0 \<and>
                  db_events (exec d (t, rq)) = db_events (storeEvent d e1) \<and>
                  (0 \<le> currentParticipants e0 \<longrightarrow> 0 \<le> currentParticipants e1))"
proof (cases rq)
  case (EventRegister u ps)
  then show ?thesis using r routed_register [of u ps d t] by (simp add: exec_def)
next
  case (EventUnregister u ps)
  then show ?thesis using r routed_unregister [of u ps d t] by (simp add: exec_def)
next
  case (EventAttendance u ps uid)
  show ?thesis
  proof (cases "post_attendance d t u ps uid")
    case (Inl x)
    then have "exec d (t, rq) = d"
      using EventAttendance roster_error_unchanged [of rq d t "fst x" "snd x"]
      by (auto simp: exec_def split: prod.splits)
    then show ?thesis by simp
  next
    case (Inr d')
    then obtain e e' v where ev: "findEventByParam d ps = Some e"
      and mark: "markAttendance t e v = Inr e'" and d': "d' = storeEvent d e'"
      by (auto simp: post_attendance_def saveEvent_def
               split: option.splits if_splits sum.splits)
    have e': "event_id e' = event_id e" "currentParticipants e' = currentParticipants e"
      using mark by (auto simp: markAttendance_def split: option.splits)
    have "findEventById d (event_id e) = Some e"
      using ev findEventById_id by (auto simp: findEventByParam_def split: option.splits)
    moreover have "db_events (exec d (t, rq)) = db_events (storeEvent d e')"
      using Inr EventAttendance d' by (simp add: exec_def)
    ultimately have "findEventById d (event_id e') = Some e \<and>
        db_events (exec d (t, rq)) = db_events (storeEvent d e') \<and>
        (0 \<le> currentParticipants e \<longrightarrow> 0 \<le> currentParticipants e')"
      using e' by simp
    then show ?thesis by blast
  qed
next
  case (RegistrationCreate u ev ty)
  show ?thesis
  proof (cases "findEventById d ev")
    case None
    then show ?thesis using RegistrationCreate by (simp add: exec_def post_registration_def)
  next
    case (Some e)
    have id: "event_id e = ev" using Some by (rule findEventById_id)
    let ?e1 = "e\<lparr>currentParticipants := currentParticipants e + 1\<rparr>"
    have "db_events (exec d (t, rq)) = db_events d \<or>
          db_events (exec d (t, rq)) = db_events (storeEvent d ?e1)"
      using RegistrationCreate Some
      by (auto simp: exec_def post_registration_def insertRegistration_def saveEvent_def
                     storeEvent_def
               split: option.splits if_splits)
    moreover have "findEventById d (event_id ?e1) = Some e" using Some id by simp
    moreover have "0 \<le> currentParticipants e \<longrightarrow> 0 \<le> currentParticipants ?e1" by simp
    ultimately show ?thesis by blast
  qed
next
  case (RegistrationStatus u rid st body_notes)
  show ?thesis
  proof (cases "findRegistrationById d rid")
    case None
    then show ?thesis
      using RegistrationStatus
      by (simp add: exec_def put_registration_status_def split: sum.splits)
  next
    case (Some r)
    show ?thesis
    proof (cases "findEventById d (r_event r)")
      case None
      then show ?thesis
        using RegistrationStatus Some
        by (simp add: exec_def put_registration_status_def split: sum.splits)
    next
      case (Some e)
      let ?e1 = "if r_status r = confirmed \<and> st \<noteq> confirmed
                 then e\<lparr>currentParticipants := max 0 (currentParticipants e - 1)\<rparr>
                 else if r_status r \<noteq> confirmed \<and> st = confirmed
                 then e\<lparr>currentParticipants := currentParticipants e + 1\<rparr>
                 else e"
      have id: "event_id ?e1 = r_event r" using findEventById_id [OF Some] by simp
      have "db_events (exec d (t, rq)) = db_events d \<or>
            db_events (exec d (t, rq)) = db_events (storeEvent d ?e1)"
        using RegistrationStatus \<open>findRegistrationById d rid = Some r\<close> Some
        by (auto simp: exec_def put_registration_status_def Let_def saveEvent_def storeEvent_def
                       findEventById_saveRegistration db_events_saveRegistration
                 split: sum.splits option.splits if_splits)
      moreover have "findEventById d (event_id ?e1) = Some e" using Some id by simp
      moreover have "0 \<le> currentParticipants e \<longrightarrow> 0 \<le> currentParticipants ?e1" by simp
      ultimately show ?thesis by blast
    qed
  qed
next
  case (RegistrationDelete u rid)
  show ?thesis
  proof (cases "findRegistrationById d rid")
    case None
    then show ?thesis
      using RegistrationDelete by (simp add: exec_def delete_registration_def)
  next
    case (Some r)
    show ?thesis
    proof (cases "findEventById d (r_event r)")
      case None
      then show ?thesis
        using RegistrationDelete Some by (simp add: exec_def delete_registration_def)
    next
      case (Some e)
      let ?e1 = "e\<lparr>currentParticipants := max 0 (currentParticipants e - 1)\<rparr>"
      have id: "event_id ?e1 = r_event r" using findEventById_id [OF Some] by simp
      have "db_events (exec d (t, rq)) = db_events d \<or>
            db_events (exec d (t, rq)) = db_events (storeEvent d ?e1)"
        using RegistrationDelete \<open>findRegistrationById d rid = Some r\<close> Some
        by (auto simp: exec_def delete_registration_def saveEvent_def storeEvent_def
                       db_events_saveRegistration event_date_def
                 split: option.splits if_splits)
      moreover have "findEventById d (event_id ?e1) = Some e" using Some id by simp
      moreover have "0 \<le> currentParticipants e \<longrightarrow> 0 \<le> currentParticipants ?e1" by simp
      ultimately show ?thesis by blast
    qed
  qed
qed

lemma nonneg_step:
  assumes ev: "findEventById d eid = Some e"
    and nn: "0 \<le> currentParticipants e"
    and r: "routed rq"
  shows "\<exists>e'. findEventById (exec d (t, rq)) eid = Some e' \<and> 0 \<le> currentParticipants e'"
proof -
  consider (same) "db_events (exec d (t, rq)) = db_events d"
    | (stored) e0 e1 where "findEventById d (event_id e1) = Some e0"
        "db_events (exec d (t, rq)) = db_events (storeEvent d e1)"
        "0 \<le> currentParticipants e0 \<longrightarrow> 0 \<le> currentParticipants e1"
    using exec_events [OF r, of d t] by blast
  then show ?thesis
  proof cases
    case same
    then show ?thesis using ev nn lookup_events [OF same, of eid] by simp
  next
    case stored
    have look: "findEventById (exec d (t, rq)) eid = findEventById (storeEvent d e1) eid"
      by (rule lookup_events [OF stored(2)])
    show ?thesis
    proof (cases "eid = event_id e1")
      case True
      then have "e0 = e" using stored(1) ev by simp
      then show ?thesis using look True stored ev nn by (simp add: findEventById_storeEvent)
    next
      case False
      then show ?thesis using look ev nn by (simp add: findEventById_storeEvent)
    qed
  qed
qed

text \<open>
  C1. For every event whose currentParticipants is 0, or any number that is not negative,
  after every sequence of requests the two routers deliver (roster register, unregister
  and attendance, ledger registration, status change and cancellation, whatever their
  responses) the event is still stored and its currentParticipants is not negative. An
  unregister request at the counter 0 is among them: the router gives it the parameter
  \<^verbatim>\<open>id\<close>, the middleware answers 'Event ID required', and the counter stays 0;
  the decrements of the registrations router are floored at 0.
\<close>

theorem counter_never_negative:
  assumes ev: "findEventById d eid = Some e"
    and zero: "0 \<le> currentParticipants e"
    and kind: "\<forall>x \<in> set rqs. routed (snd x)"
  shows "\<exists>e'. findEventById (run d rqs) eid = Some e' \<and> 0 \<le> currentParticipants e'"
  using assms
proof (induction rqs arbitrary: d e)
  case Nil
  then show ?case by (simp add: run_def)
next
  case (Cons x rqs)
  obtain t rq where x: "x = (t, rq)" by (cases x)
  obtain e1 where e1: "findEventById (exec d x) eid = Some e1" "0 \<le> currentParticipants e1"
    using nonneg_step [OF Cons.prems(1,2), of rq t] Cons.prems(3) x by auto
  have "\<exists>e'. findEventById (run (exec d x) rqs) eid = Some e' \<and> 0 \<le> currentParticipants e'"
    using Cons.IH [OF e1] Cons.prems(3) by simp
  then show ?case by (simp add: run_def)
qed

theorem counter_never_negative_witness:
  "findEventById (store event1 [entry 1 7 confirmed]) 1 = Some event1 \<and>
   currentParticipants event1 = 0 \<and>
   list_all (\<lambda>x. routed (snd x))
     [(10::int, EventUnregister alice [(''id'', 1)]),
      (11, RegistrationStatus prof 1 rejected None),
      (12, RegistrationCreate alice 1 participant),
      (13, EventRegister bob [(''id'', 1)]),
      (14, RegistrationStatus prof 1 confirmed None)] \<and>
   (\<exists>e1 e2 e'.
      findEventById (run (store event1 [entry 1 7 confirmed])
         [(10, EventUnregister alice [(''id'', 1)])]) 1 = Some e1 \<and>
      currentParticipants e1 = 0 \<and>
      findEventById (run (store event1 [entry 1 7 confirmed])
         [(10, EventUnregister alice [(''id'', 1)]),
          (11, RegistrationStatus prof 1 rejected None)]) 1 = Some e2 \<and>
      currentParticipants e2 = 0 \<and>
      findEventById (run (store event1 [entry 1 7 confirmed])
         [(10, EventUnregister alice [(''id'', 1)]),
          (11, RegistrationStatus prof 1 rejected None),
          (12, RegistrationCreate alice 1 participant),
          (13, EventRegister bob [(''id'', 1)]),
          (14, RegistrationStatus prof 1 confirmed None)]) 1 = Some e' \<and>
      0 \<le> currentParticipants e' \<and> currentParticipants e' = 2)"
proof -
  let ?rqs = "[(10::int, EventUnregister alice [(''id'', 1)]),
               (11, RegistrationStatus prof 1 rejected None),
               (12, RegistrationCreate alice 1 participant),
               (13, EventRegister bob [(''id'', 1)]),
               (14, RegistrationStatus prof 1 confirmed None)]"
  have ev: "findEventById (store event1 [entry 1 7 confirmed]) 1 = Some event1"
    by (simp add: findEventById_def store_def event1_def new_event_def)
  have zero: "0 \<le> currentParticipants event1" "currentParticipants event1 = 0"
    by (simp_all add: event1_def new_event_def)
  have kind: "\<forall>x \<in> set ?rqs. routed (snd x)" by simp
  obtain e' where e': "findEventById (run (store event1 [entry 1 7 confirmed]) ?rqs) 1 = Some e'"
      "0 \<le> currentParticipants e'"
    using counter_never_negative [OF ev zero(1) kind] by blast
  have steps: "\<exists>e1 e2 e3.
      findEventById (run (store event1 [entry 1 7 confirmed])
         [(10, EventUnregister alice [(''id'', 1)])]) 1 = Some e1 \<and>
      currentParticipants e1 = 0 \<and>
      findEventById (run (store event1 [entry 1 7 confirmed])
         [(10, EventUnregister alice [(''id'', 1)]),
          (11, RegistrationStatus prof 1 rejected None)]) 1 = Some e2 \<and>
      currentParticipants e2 = 0 \<and>
      findEventById (run (store event1 [entry 1 7 confirmed]) ?rqs) 1 = Some e3 \<and>
      currentParticipants e3 = 2"
    by (simp add: run_def exec_def store_defs handler_defs sample_defs)
  show ?thesis using ev zero(2) kind e' steps by (auto simp: list_all_iff)
qed

section \<open>Reading a deactivated event\<close>

lemma get_related_active:
  assumes "get_related d ps = Inr es"
  shows "\<forall>x \<in> set es. isActive x"
proof -
  obtain Q where "es = take 4 (sort_key startDate (filter (\<lambda>x. isActive x \<and> Q x) (db_events d)))"
    using assms
    by (auto simp: get_related_def conj_commute conj_left_commute split: option.splits)
  then have "set es \<subseteq> set (filter (\<lambda>x. isActive x \<and> Q x) (db_events d))"
    using set_take_subset [of 4 "sort_key startDate (filter (\<lambda>x. isActive x \<and> Q x) (db_events d))"]
    by simp
  then show ?thesis by auto
qed

text \<open>
  C9. For event 1 deactivated, with user 5 on its roster: GET /api/events/:id answers
  'Event not found' and the listing does not contain it, but GET
  /api/events/:id/participants, asked by its creator, answers with the roster.
\<close>

theorem inactive_event_participants:
  "\<not> isActive (event1\<lparr>isActive := False, participants := [joined 5],
                     currentParticipants := 1\<rparr>) \<and>
   get_event
     (store (event1\<lparr>isActive := False, participants := [joined 5],
                    currentParticipants := 1\<rparr>) [])
     [(''id'', 1)] = Inl Event_not_found \<and>
   snd (get_events
     (store (event1\<lparr>isActive := False, participants := [joined 5],
                    currentParticipants := 1\<rparr>) [])
     10 (\<lambda>e. True) (\<lambda>es. es)) = [] \<and>
   get_participants
     (store (event1\<lparr>isActive := False, participants := [joined 5],
                    currentParticipants := 1\<rparr>) [])
     prof [(''id'', 1)] = Inr [joined 5]"
  by (simp add: store_defs handler_defs sample_defs get_event_def get_events_def
      get_participants_def)

end
